theory Spec2Isabelle
  imports Complex_Main
begin

section \<open>Python strings\<close>

text \<open>
  A Python \<open>str\<close> is a sequence of code points. The model covers the code points
  U+0000 to U+00FF: a \<^typ>\<open>char\<close> is one such code point, \<^term>\<open>of_char c\<close> its number,
  and \<^typ>\<open>string\<close> the sequence. On this range \<open>str.isspace\<close>, \<open>str.lower\<close> and
  \<open>str.upper\<close> are the tables below, with one exception: the capitals of U+00B5 and
  U+00FF are U+039C and U+0178, beyond the range, and \<open>upper\<close> keeps the small letter
  in their place. The choice of rule is not affected, since every tag the program
  compares with is ASCII; in a lookup key, the small letter of an upper-cased tag stands
  for its capital.
\<close>

definition code :: "char \<Rightarrow> nat" where
  "code c = of_char c"

definition in_range :: "char \<Rightarrow> char \<Rightarrow> char \<Rightarrow> bool" where
  "in_range lo hi c = (code lo \<le> code c \<and> code c \<le> code hi)"

definition isspace :: "char \<Rightarrow> bool" where
  "isspace c = ((9 \<le> code c \<and> code c \<le> 13) \<or> (28 \<le> code c \<and> code c \<le> 32)
                 \<or> code c = 133 \<or> code c = 160)"

definition lower_char :: "char \<Rightarrow> char" where
  "lower_char c =
     (if (65 \<le> code c \<and> code c \<le> 90) \<or> (192 \<le> code c \<and> code c \<le> 222 \<and> code c \<noteq> 215)
      then char_of (code c + 32) else c)"

definition upper_char :: "char \<Rightarrow> string" where
  "upper_char c =
     (if (97 \<le> code c \<and> code c \<le> 122) \<or> (224 \<le> code c \<and> code c \<le> 254 \<and> code c \<noteq> 247)
      then [char_of (code c - 32)]
      else if code c = 223 then ''SS''
      else [c])"

definition lower :: "string \<Rightarrow> string" where
  "lower s = map lower_char s"

definition upper :: "string \<Rightarrow> string" where
  "upper s = concat (map upper_char s)"

definition strip :: "string \<Rightarrow> string" where
  "strip s = rev (dropWhile isspace (rev (dropWhile isspace s)))"

definition startswith :: "string \<Rightarrow> string \<Rightarrow> bool" where
  "startswith s p = (take (length p) s = p)"

definition startswith_any :: "string \<Rightarrow> string list \<Rightarrow> bool" where
  "startswith_any s ps = list_ex (startswith s) ps"

section \<open>The three patterns\<close>

text \<open>
  \<open>re.match\<close> anchors at the start of the string. \<open>$\<close> holds at the end of the string
  and also just before a line feed that ends it. A counted repetition \<open>X{lo,hi}\<close>
  followed by \<open>$\<close> matches when some count in the range leaves a rest at which \<open>$\<close>
  holds.
\<close>

definition at_dollar :: "string \<Rightarrow> bool" where
  "at_dollar s = (s = [] \<or> s = [CHR 0x0A])"

definition counted_then_dollar :: "(char \<Rightarrow> bool) \<Rightarrow> nat \<Rightarrow> nat \<Rightarrow> string \<Rightarrow> bool" where
  "counted_then_dollar cls lo hi s =
     list_ex (\<lambda>n. n \<le> length s \<and> list_all cls (take n s) \<and> at_dollar (drop n s)) [lo..<Suc hi]"

text \<open>The class \<open>[a-fA-F0-9]\<close>.\<close>

definition hex_class :: "char \<Rightarrow> bool" where
  "hex_class c = (in_range CHR ''a'' CHR ''f'' c \<or> in_range CHR ''A'' CHR ''F'' c
                   \<or> in_range CHR ''0'' CHR ''9'' c)"

text \<open>
  The class \<open>[a-z0-9]\<close> under \<open>re.IGNORECASE\<close>: on U+0000 to U+00FF it holds of the
  ASCII letters of either case and the digits.
\<close>

definition alnum_ignorecase_class :: "char \<Rightarrow> bool" where
  "alnum_ignorecase_class c = (in_range CHR ''a'' CHR ''z'' c \<or> in_range CHR ''A'' CHR ''Z'' c
                   \<or> in_range CHR ''0'' CHR ''9'' c)"

text \<open>The class \<open>[a-km-zA-HJ-NP-Z1-9]\<close>.\<close>

definition base58_class :: "char \<Rightarrow> bool" where
  "base58_class c = (in_range CHR ''a'' CHR ''k'' c \<or> in_range CHR ''m'' CHR ''z'' c
                   \<or> in_range CHR ''A'' CHR ''H'' c \<or> in_range CHR ''J'' CHR ''N'' c
                   \<or> in_range CHR ''P'' CHR ''Z'' c \<or> in_range CHR ''1'' CHR ''9'' c)"

text \<open>\<open>EVM_RE = ^0x[a-fA-F0-9]{40}$\<close>\<close>

definition EVM_RE :: "string \<Rightarrow> bool" where
  "EVM_RE s = (startswith s ''0x'' \<and> counted_then_dollar hex_class 40 40 (drop 2 s))"

text \<open>
  \<open>BTC_BECH32_RE = ^(bc1|tb1|bcrt1)[a-z0-9]{20,90}$\<close> with \<open>re.IGNORECASE\<close>: a literal
  matches the text whose lower-case form it is.
\<close>

definition BTC_BECH32_RE :: "string \<Rightarrow> bool" where
  "BTC_BECH32_RE s =
     list_ex (\<lambda>p. lower (take (length p) s) = p
                \<and> counted_then_dollar alnum_ignorecase_class 20 90 (drop (length p) s))
       [''bc1'', ''tb1'', ''bcrt1'']"

text \<open>\<open>BTC_BASE58_RE = ^[13][a-km-zA-HJ-NP-Z1-9]{25,34}$\<close>\<close>

definition BTC_BASE58_RE :: "string \<Rightarrow> bool" where
  "BTC_BASE58_RE s =
     (case s of [] \<Rightarrow> False
      | c # r \<Rightarrow> (c = CHR ''1'' \<or> c = CHR ''3'') \<and> counted_then_dollar base58_class 25 34 r)"

section \<open>Canonicalization and syntactic validation\<close>

definition canonicalize :: "string \<Rightarrow> string \<Rightarrow> string" where
  "canonicalize chain address =
     (let a = strip address;
          c = strip (upper chain)
      in if c \<in> {''ETH'', ''EVM'', ''ARB'', ''BSC'', ''OP'', ''MATIC''} then lower a
         else if c \<in> {''XBT'', ''BTC''} then
           (if startswith_any (lower a) [''bc1'', ''tb1'', ''bcrt1''] then lower a else a)
         else a)"

definition syntactic_validate :: "string \<Rightarrow> string \<Rightarrow> bool" where
  "syntactic_validate chain address =
     (let c = strip (upper chain);
          a = strip address
      in if c \<in> {''ETH'', ''EVM'', ''ARB'', ''BSC'', ''OP'', ''MATIC''} then EVM_RE a
         else if c \<in> {''XBT'', ''BTC''} then BTC_BECH32_RE (lower a) \<or> BTC_BASE58_RE a
         else True)"

section \<open>Results of a screening\<close>

datatype json =
    JNull
  | JBool bool
  | JNum real
  | JStr string
  | JArr "json list"
  | JObj "(string \<times> json) list"

record datetime =
  year :: nat
  month :: nat
  day :: nat
  hour :: nat
  minute :: nat
  second :: nat

text \<open>
  The dataclass \<open>ListVersion\<close>. Python checks no annotation, and the loader stores what
  the document holds under each key, so three fields carry a JSON value.
\<close>

record ListVersion =
  source :: json
  retrieved_at_utc :: datetime
  sha256 :: json
  uri :: json

record ScreenResult =
  address :: string
  chain :: string
  match :: bool
  risk_score :: int
  reason :: string
  list_version :: "ListVersion option"

definition screen_exact_match ::
    "string \<Rightarrow> string \<Rightarrow> (string \<times> string) set \<Rightarrow> ListVersion \<Rightarrow> ScreenResult" where
  "screen_exact_match chain' address' sanctioned_set version =
     (if \<not> syntactic_validate chain' address' then
        \<lparr>address = address', chain = chain', match = False, risk_score = 0,
         reason = ''invalid_address_syntax'', list_version = Some version\<rparr>
      else
        let addr_norm = canonicalize chain' address';
            hit = ((upper chain', addr_norm) \<in> sanctioned_set)
        in if hit then
             \<lparr>address = address', chain = chain', match = True, risk_score = 100,
              reason = ''exact_match_authoritative_sanctions_address'',
              list_version = Some version\<rparr>
           else
             \<lparr>address = address', chain = chain', match = False, risk_score = 0,
              reason = ''no_exact_match'', list_version = Some version\<rparr>)"

section \<open>Loading the sanctioned set\<close>

text \<open>
  The loader is modelled from the value \<open>json.load\<close> returns. A \<open>dict\<close> is the list of
  its items, keys distinct, and \<^term>\<open>map_of\<close> looks a key up. Each exception the
  loader can raise on that value is an error of the result.
\<close>

datatype error = AttributeError | TypeError | KeyError | ValueError

text \<open>\<open>d.get(k, default)\<close>: only a \<open>dict\<close> has the method.\<close>

fun get :: "json \<Rightarrow> string \<Rightarrow> json \<Rightarrow> error + json" where
  "get (JObj items) k d = Inr (case map_of items k of None \<Rightarrow> d | Some v \<Rightarrow> v)"
| "get _ k d = Inl AttributeError"

text \<open>\<open>item[k]\<close> with a string key.\<close>

fun subscript :: "json \<Rightarrow> string \<Rightarrow> error + json" where
  "subscript (JObj items) k = (case map_of items k of None \<Rightarrow> Inl KeyError | Some v \<Rightarrow> Inr v)"
| "subscript _ k = Inl TypeError"

text \<open>
  What a \<open>for\<close> loop runs over: the elements of a list, the keys of a \<open>dict\<close>, the
  characters of a string; any other value is not iterable.
\<close>

fun iterate :: "json \<Rightarrow> error + json list" where
  "iterate (JArr xs) = Inr xs"
| "iterate (JObj items) = Inr (map (\<lambda>kv. JStr (fst kv)) items)"
| "iterate (JStr s) = Inr (map (\<lambda>c. JStr [c]) s)"
| "iterate _ = Inl TypeError"

text \<open>
  \<open>datetime.fromisoformat\<close> belongs to the Python library, so the loader takes it as
  the parameter \<open>fromisoformat\<close>, \<open>None\<close> where the library raises \<open>ValueError\<close>. A
  value that is no string raises \<open>TypeError\<close>.
\<close>

fun parse_retrieved :: "(string \<Rightarrow> datetime option) \<Rightarrow> json \<Rightarrow> error + datetime" where
  "parse_retrieved fromisoformat (JStr s) =
     (case fromisoformat s of None \<Rightarrow> Inl ValueError | Some d \<Rightarrow> Inr d)"
| "parse_retrieved fromisoformat _ = Inl TypeError"

definition load_version :: "(string \<Rightarrow> datetime option) \<Rightarrow> json \<Rightarrow> error + ListVersion" where
  "load_version fromisoformat data =
     (case get data ''metadata'' (JObj []) of Inl e \<Rightarrow> Inl e | Inr metadata \<Rightarrow>
      case get metadata ''source'' (JStr ''UNKNOWN'') of Inl e \<Rightarrow> Inl e | Inr src \<Rightarrow>
      case get metadata ''retrieved_at_utc'' (JStr ''2000-01-01T00:00:00'') of
        Inl e \<Rightarrow> Inl e | Inr r \<Rightarrow>
      case parse_retrieved fromisoformat r of Inl e \<Rightarrow> Inl e | Inr d \<Rightarrow>
      case get metadata ''sha256'' (JStr []) of Inl e \<Rightarrow> Inl e | Inr h \<Rightarrow>
      case get metadata ''uri'' (JStr []) of Inl e \<Rightarrow> Inl e | Inr u \<Rightarrow>
        Inr \<lparr>source = src, retrieved_at_utc = d, sha256 = h, uri = u\<rparr>)"

text \<open>
  The body of the loop. \<open>canonicalize\<close> calls \<open>address.strip()\<close> and then
  \<open>chain.upper()\<close>: a value that is no string has neither method.
\<close>

definition add_item :: "json \<Rightarrow> (string \<times> string) set \<Rightarrow> error + (string \<times> string) set" where
  "add_item item sanctioned_set =
     (case subscript item ''chain'' of Inl e \<Rightarrow> Inl e | Inr ch \<Rightarrow>
      case subscript item ''address'' of Inl e \<Rightarrow> Inl e | Inr ad \<Rightarrow>
      case (ad, ch) of
        (JStr a, JStr c) \<Rightarrow> Inr (insert (upper c, canonicalize c a) sanctioned_set)
      | _ \<Rightarrow> Inl AttributeError)"

fun add_items :: "json list \<Rightarrow> (string \<times> string) set \<Rightarrow> error + (string \<times> string) set" where
  "add_items [] sanctioned_set = Inr sanctioned_set"
| "add_items (item # rest) sanctioned_set =
     (case add_item item sanctioned_set of Inl e \<Rightarrow> Inl e | Inr s \<Rightarrow> add_items rest s)"

definition load_sanctioned_addresses ::
    "(string \<Rightarrow> datetime option) \<Rightarrow> json \<Rightarrow> error + ((string \<times> string) set \<times> ListVersion)" where
  "load_sanctioned_addresses fromisoformat data =
     (case load_version fromisoformat data of Inl e \<Rightarrow> Inl e | Inr version \<Rightarrow>
      case get data ''addresses'' (JArr []) of Inl e \<Rightarrow> Inl e | Inr addresses \<Rightarrow>
      case iterate addresses of Inl e \<Rightarrow> Inl e | Inr items \<Rightarrow>
      case add_items items {} of Inl e \<Rightarrow> Inl e | Inr s \<Rightarrow> Inr (s, version))"

text \<open>
  One instance of the parameter, for concrete documents: the fixed-width form
  \<open>YYYY-MM-DDTHH:MM:SS\<close>, which is the form of the loader's own default. The library
  accepts further spellings; nothing proved for every \<open>fromisoformat\<close> depends on this
  instance.
\<close>

definition digits :: "string \<Rightarrow> nat option" where
  "digits s =
     (if s \<noteq> [] \<and> list_all (in_range CHR ''0'' CHR ''9'') s
      then Some (foldl (\<lambda>n c. 10 * n + (code c - code CHR ''0'')) 0 s) else None)"

definition days_in_month :: "nat \<Rightarrow> nat \<Rightarrow> nat" where
  "days_in_month y m =
     (if m = 2 then
        (if y mod 400 = 0 then 29 else if y mod 100 = 0 then 28 else if y mod 4 = 0 then 29 else 28)
      else if m \<in> {4, 6, 9, 11} then 30 else 31)"

definition fromisoformat_seconds :: "string \<Rightarrow> datetime option" where
  "fromisoformat_seconds s =
     (if length s = 19 \<and> s ! 4 = CHR ''-'' \<and> s ! 7 = CHR ''-'' \<and> s ! 10 = CHR ''T''
         \<and> s ! 13 = CHR '':'' \<and> s ! 16 = CHR '':'' then
        (case (digits (take 4 s), digits (take 2 (drop 5 s)), digits (take 2 (drop 8 s)),
               digits (take 2 (drop 11 s)), digits (take 2 (drop 14 s)),
               digits (take 2 (drop 17 s))) of
           (Some y, Some m, Some d, Some h, Some mi, Some sec) \<Rightarrow>
             if 1 \<le> y \<and> 1 \<le> m \<and> m \<le> 12 \<and> 1 \<le> d \<and> d \<le> days_in_month y m
                \<and> h < 24 \<and> mi < 60 \<and> sec < 60
             then Some \<lparr>year = y, month = m, day = d, hour = h, minute = mi, second = sec\<rparr>
             else None
         | _ \<Rightarrow> None)
      else None)"

text \<open>The list version of the demonstration in \<open>main\<close>, with a fixed time of retrieval.\<close>

definition demo_version :: ListVersion where
  "demo_version =
     \<lparr>source = JStr ''DEMO'',
      retrieved_at_utc = \<lparr>year = 2026, month = 2, day = 15, hour = 0, minute = 0, second = 0\<rparr>,
      sha256 = JStr ''demo'', uri = JStr ''demo''\<rparr>"

section \<open>Facts about the string operations\<close>

lemma code_less_256: "code c < 256"
  by (simp add: code_def)

lemma code_char_of: "n < 256 \<Longrightarrow> code (char_of n) = n"
  by (simp add: code_def)

lemma code_eq_iff: "code c = code d \<longleftrightarrow> c = d"
  by (simp add: code_def)

lemma lower_char_idem: "lower_char (lower_char c) = lower_char c"
  using code_less_256 [of c] by (auto simp add: lower_char_def code_char_of)

lemma isspace_lower_char: "isspace (lower_char c) = isspace c"
  using code_less_256 [of c] by (auto simp add: lower_char_def isspace_def code_char_of)

lemma lower_lower: "lower (lower s) = lower s"
  by (simp add: lower_def lower_char_idem)

lemma length_lower: "length (lower s) = length s"
  by (simp add: lower_def)

lemma dropWhile_isspace_lower:
  "dropWhile isspace (lower s) = lower (dropWhile isspace s)"
  by (induction s) (simp_all add: lower_def isspace_lower_char)

lemma rev_lower: "rev (lower s) = lower (rev s)"
  by (simp add: lower_def rev_map)

lemma strip_lower: "strip (lower s) = lower (strip s)"
  by (simp add: strip_def dropWhile_isspace_lower rev_lower)

lemma hd_strip: "strip s \<noteq> [] \<Longrightarrow> \<not> isspace (hd (strip s))"
proof -
  assume ne: "strip s \<noteq> []"
  let ?t = "dropWhile isspace s"
  have "rev (takeWhile isspace (rev ?t) @ dropWhile isspace (rev ?t)) = ?t" by simp
  then have "rev (dropWhile isspace (rev ?t)) @ rev (takeWhile isspace (rev ?t)) = ?t"
    by (simp only: rev_append)
  then have t: "?t = strip s @ rev (takeWhile isspace (rev ?t))"
    by (simp add: strip_def)
  with ne have "hd ?t = hd (strip s)" by (metis hd_append2)
  moreover from t ne have "?t \<noteq> []" by (metis Nil_is_append_conv)
  then have "\<not> isspace (hd ?t)" by (rule hd_dropWhile)
  ultimately show ?thesis by simp
qed

lemma last_strip: "strip s \<noteq> [] \<Longrightarrow> \<not> isspace (last (strip s))"
proof -
  assume ne: "strip s \<noteq> []"
  then have "dropWhile isspace (rev (dropWhile isspace s)) \<noteq> []"
    by (simp add: strip_def)
  then have "\<not> isspace (hd (dropWhile isspace (rev (dropWhile isspace s))))"
    by (rule hd_dropWhile)
  then show ?thesis using ne by (simp add: strip_def last_rev)
qed

lemma strip_fixed:
  assumes "s = [] \<or> (\<not> isspace (hd s) \<and> \<not> isspace (last s))"
  shows "strip s = s"
proof -
  from assms have "dropWhile isspace s = s"
    by (auto simp add: dropWhile_eq_self_iff)
  moreover from assms have "dropWhile isspace (rev s) = rev s"
    by (auto simp add: dropWhile_eq_self_iff hd_rev)
  ultimately show ?thesis by (simp add: strip_def)
qed

lemma strip_strip: "strip (strip s) = strip s"
  by (rule strip_fixed) (use hd_strip last_strip in blast)


lemma isspace_LF: "isspace (CHR 0x0A)"
  by (simp add: isspace_def code_def)

lemma strip_no_LF_tail: "drop n (strip a) \<noteq> [CHR 0x0A]"
proof
  assume d: "drop n (strip a) = [CHR 0x0A]"
  then have n: "n < length (strip a)" by (cases "n < length (strip a)") simp_all
  then have "last (drop n (strip a)) = last (strip a)" by (rule last_drop)
  with d have "last (strip a) = CHR 0x0A" by simp
  moreover from n have "strip a \<noteq> []" by auto
  ultimately show False using last_strip [of a] isspace_LF by simp
qed

lemma counted_then_dollar_strip:
  "counted_then_dollar cls lo hi (drop k (strip a)) \<longleftrightarrow>
     lo \<le> length (drop k (strip a)) \<and> length (drop k (strip a)) \<le> hi
       \<and> list_all cls (drop k (strip a))"
proof -
  let ?t = "drop k (strip a)"
  have dollar: "at_dollar (drop n ?t) \<longleftrightarrow> length ?t \<le> n" for n
    using strip_no_LF_tail [of "n + k" a] by (simp add: at_dollar_def add.commute) arith
  have "counted_then_dollar cls lo hi ?t \<longleftrightarrow>
          (\<exists>n. lo \<le> n \<and> n \<le> hi \<and> n \<le> length ?t \<and> list_all cls (take n ?t) \<and> length ?t \<le> n)"
    unfolding counted_then_dollar_def list_ex_iff dollar by auto
  also have "\<dots> \<longleftrightarrow> lo \<le> length ?t \<and> length ?t \<le> hi \<and> list_all cls ?t"
  proof
    assume "\<exists>n. lo \<le> n \<and> n \<le> hi \<and> n \<le> length ?t \<and> list_all cls (take n ?t) \<and> length ?t \<le> n"
    then obtain n where n: "lo \<le> n" "n \<le> hi" "n \<le> length ?t" "list_all cls (take n ?t)"
      "length ?t \<le> n" by blast
    then have "n = length ?t" by simp
    with n show "lo \<le> length ?t \<and> length ?t \<le> hi \<and> list_all cls ?t" by simp
  next
    assume "lo \<le> length ?t \<and> length ?t \<le> hi \<and> list_all cls ?t"
    then show "\<exists>n. lo \<le> n \<and> n \<le> hi \<and> n \<le> length ?t \<and> list_all cls (take n ?t) \<and> length ?t \<le> n"
      by (intro exI [of _ "length ?t"]) simp
  qed
  finally show ?thesis .
qed

lemma hex_class_iff: "hex_class c \<longleftrightarrow> c \<in> set ''0123456789abcdefABCDEF''"
  unfolding hex_class_def in_range_def
  by (simp add: code_eq_iff [symmetric]) (simp add: code_def, arith)

lemma startswith_0x: "startswith s ''0x'' \<longleftrightarrow> take 2 s = ''0x''"
  by (simp add: startswith_def numeral_2_eq_2)

lemma EVM_RE_strip:
  "EVM_RE (strip a) \<longleftrightarrow>
     (\<exists>h. strip a = ''0x'' @ h \<and> length h = 40 \<and> list_all hex_class h)"
proof
  assume "EVM_RE (strip a)"
  then have p: "take 2 (strip a) = ''0x''"
    and r: "length (drop 2 (strip a)) = 40" "list_all hex_class (drop 2 (strip a))"
    by (simp_all add: EVM_RE_def startswith_0x counted_then_dollar_strip)
  have "strip a = take 2 (strip a) @ drop 2 (strip a)" by simp
  with p have "strip a = ''0x'' @ drop 2 (strip a)" by simp
  with r show "\<exists>h. strip a = ''0x'' @ h \<and> length h = 40 \<and> list_all hex_class h" by blast
next
  assume "\<exists>h. strip a = ''0x'' @ h \<and> length h = 40 \<and> list_all hex_class h"
  then obtain h where h: "strip a = ''0x'' @ h" "length h = 40" "list_all hex_class h" by blast
  from h(1) have t: "take 2 (strip a) = ''0x''" and d: "drop 2 (strip a) = h" by simp_all
  have "counted_then_dollar hex_class 40 40 (drop 2 (strip a))"
    unfolding counted_then_dollar_strip using d h(2,3) by simp
  with t show "EVM_RE (strip a)"
    by (simp only: EVM_RE_def startswith_0x simp_thms)
qed

section \<open>Which rule a chain tag selects\<close>

lemma tag_ETH: "strip (upper ''ETH'') = ''ETH''" "upper ''ETH'' = ''ETH''"
  by code_simp+

lemma tag_BTC: "strip (upper ''BTC'') = ''BTC''" "upper ''BTC'' = ''BTC''"
  by code_simp+

lemma tag_XBT: "strip (upper ''XBT'') = ''XBT''" "upper ''XBT'' = ''XBT''"
  by code_simp+

lemma evm_dispatch:
  assumes "strip (upper c) \<in> {''ETH'', ''EVM'', ''ARB'', ''BSC'', ''OP'', ''MATIC''}"
  shows "canonicalize c a = lower (strip a)" and "syntactic_validate c a = EVM_RE (strip a)"
  using assms by (simp_all add: canonicalize_def syntactic_validate_def Let_def)

lemma btc_dispatch:
  assumes "strip (upper c) \<in> {''XBT'', ''BTC''}"
  shows "canonicalize c a =
           (if startswith_any (lower (strip a)) [''bc1'', ''tb1'', ''bcrt1'']
            then lower (strip a) else strip a)"
    and "syntactic_validate c a = (BTC_BECH32_RE (lower (strip a)) \<or> BTC_BASE58_RE (strip a))"
  using assms by (auto simp add: canonicalize_def syntactic_validate_def Let_def)

lemma other_dispatch:
  assumes "strip (upper c) \<notin> {''ETH'', ''EVM'', ''ARB'', ''BSC'', ''OP'', ''MATIC''}"
      and "strip (upper c) \<notin> {''XBT'', ''BTC''}"
  shows "canonicalize c a = strip a" and "syntactic_validate c a"
  using assms by (simp_all add: canonicalize_def syntactic_validate_def Let_def)

section \<open>Hexadecimal digits, letter case and lengths\<close>

lemma list_all_hex_iff: "list_all hex_class h \<longleftrightarrow> set h \<subseteq> set ''0123456789abcdefABCDEF''"
  unfolding list_all_iff using hex_class_iff by blast

lemma length_dropWhile_eq: "length (dropWhile P xs) = length xs \<Longrightarrow> dropWhile P xs = xs"
proof -
  assume l: "length (dropWhile P xs) = length xs"
  have "length (takeWhile P xs @ dropWhile P xs) = length xs" by simp
  then have "length (takeWhile P xs) + length (dropWhile P xs) = length xs"
    by (simp only: length_append)
  with l have "takeWhile P xs = []" by simp
  then have "takeWhile P xs @ dropWhile P xs = dropWhile P xs" by simp
  then show ?thesis by simp
qed

lemma length_strip_eq: "length (strip a) = length a \<Longrightarrow> strip a = a"
proof -
  assume l: "length (strip a) = length a"
  let ?t = "dropWhile isspace a"
  have 1: "length (strip a) \<le> length ?t"
    using length_dropWhile_le [of isspace "rev ?t"] by (simp add: strip_def)
  have 2: "length ?t \<le> length a" by (rule length_dropWhile_le)
  from l 1 2 have "length ?t = length a" by simp
  then have t: "?t = a" by (rule length_dropWhile_eq)
  with l have "length (dropWhile isspace (rev a)) = length (rev a)" by (simp add: strip_def)
  then have "dropWhile isspace (rev a) = rev a" by (rule length_dropWhile_eq)
  with t show ?thesis by (simp add: strip_def)
qed

lemma match_iff:
  "match (screen_exact_match c a S V) \<longleftrightarrow> syntactic_validate c a \<and> (upper c, canonicalize c a) \<in> S"
  by (simp add: screen_exact_match_def Let_def)

lemma hex_codes: "hex_class c \<longleftrightarrow>
    (97 \<le> code c \<and> code c \<le> 102) \<or> (65 \<le> code c \<and> code c \<le> 70) \<or> (48 \<le> code c \<and> code c \<le> 57)"
  by (simp add: hex_class_def in_range_def code_def)

lemma hex_not_space: "hex_class c \<Longrightarrow> \<not> isspace c"
  unfolding hex_codes isspace_def by arith

lemma lower_char_code:
  "code (lower_char c) =
     (if (65 \<le> code c \<and> code c \<le> 90) \<or> (192 \<le> code c \<and> code c \<le> 222 \<and> code c \<noteq> 215)
      then code c + 32 else code c)"
  by (simp add: lower_char_def code_char_of)

lemma hex_lower_char: "hex_class (lower_char c) = hex_class c"
  unfolding hex_codes lower_char_code by (simp split: if_splits)

lemma hex_lower: "list_all hex_class (lower h) = list_all hex_class h"
  by (induction h) (simp_all add: lower_def hex_lower_char)

lemma char_of_code: "char_of (code c) = c"
  by (simp add: code_def)

lemma lower_upper_char_hex:
  assumes "hex_class c"
  shows "lower (upper_char c) = [lower_char c]"
proof (cases "97 \<le> code c \<and> code c \<le> 102")
  case True
  then have u: "upper_char c = [char_of (code c - 32)]" by (simp add: upper_char_def)
  from True have "code c - 32 < 256" by arith
  then have "code (char_of (code c - 32)) = code c - 32" by (rule code_char_of)
  moreover from True have r: "65 \<le> code c - 32 \<and> code c - 32 \<le> 90" by arith
  ultimately have "lower_char (char_of (code c - 32)) = char_of (code c - 32 + 32)"
    by (simp only: lower_char_def simp_thms if_True)
  moreover from True have "code c - 32 + 32 = code c" by arith
  ultimately have "lower_char (char_of (code c - 32)) = char_of (code c)" by simp
  moreover from True have "lower_char c = c" by (simp add: lower_char_def)
  ultimately show ?thesis by (simp add: u lower_def char_of_code)
next
  case False
  with assms have "code c \<le> 70" unfolding hex_codes by arith
  then have "upper_char c = [c]" by (simp add: upper_char_def)
  then show ?thesis by (simp add: lower_def)
qed

lemma lower_upper_hex: "list_all hex_class h \<Longrightarrow> lower (upper h) = lower h"
proof (induction h)
  case Nil
  then show ?case by (simp add: lower_def upper_def)
next
  case (Cons c h)
  then have "lower (upper_char c) = [lower_char c]" and "lower (upper h) = lower h"
    by (simp_all add: lower_upper_char_hex)
  then show ?case by (simp add: lower_def upper_def)
qed

lemma strip_0x_hex:
  assumes "list_all hex_class h"
  shows "strip (''0x'' @ h) = ''0x'' @ h"
proof (rule strip_fixed)
  have "\<not> isspace (CHR ''0'')" "\<not> isspace (CHR ''x'')"
    by (simp_all add: isspace_def code_def)
  moreover have "\<not> isspace (last h)" if "h \<noteq> []"
  proof -
    from that have "last h \<in> set h" by simp
    with assms have "hex_class (last h)" by (simp add: list_all_iff)
    then show ?thesis by (rule hex_not_space)
  qed
  ultimately show "''0x'' @ h = [] \<or> (\<not> isspace (hd (''0x'' @ h)) \<and> \<not> isspace (last (''0x'' @ h)))"
    by simp
qed

lemma screen_eth_0x_hex:
  assumes "length h = 40" and "list_all hex_class h"
  shows "match (screen_exact_match ''ETH'' (''0x'' @ h) S V) = ((''ETH'', ''0x'' @ lower h) \<in> S)"
proof -
  have tag: "strip (upper ''ETH'') \<in> {''ETH'', ''EVM'', ''ARB'', ''BSC'', ''OP'', ''MATIC''}"
    by (simp add: tag_ETH(1))
  have s: "strip (''0x'' @ h) = ''0x'' @ h" using assms(2) by (rule strip_0x_hex)
  from assms s have "\<exists>k. strip (''0x'' @ h) = ''0x'' @ k \<and> length k = 40 \<and> list_all hex_class k"
    by blast
  then have v: "syntactic_validate ''ETH'' (''0x'' @ h)"
    by (simp only: evm_dispatch(2) [OF tag] EVM_RE_strip)
  have "lower ''0x'' = ''0x''" by code_simp
  then have "lower (''0x'' @ h) = ''0x'' @ lower h" by (simp only: lower_def map_append)
  with s have c: "canonicalize ''ETH'' (''0x'' @ h) = ''0x'' @ lower h"
    by (simp only: evm_dispatch(1) [OF tag])
  show ?thesis
    unfolding match_iff c tag_ETH(2) using v by (simp only: simp_thms)
qed

section \<open>The claims\<close>

text \<open>
  C8. \<open>canonicalize\<close> is idempotent: for every chain and every address string,
  canonicalizing a canonical form again returns it unchanged.
\<close>

theorem canonicalize_idempotent: "canonicalize c (canonicalize c a) = canonicalize c a"
proof -
  have stable: "strip (lower (strip a)) = lower (strip a)"
    by (simp add: strip_lower strip_strip)
  consider (evm) "strip (upper c) \<in> {''ETH'', ''EVM'', ''ARB'', ''BSC'', ''OP'', ''MATIC''}"
    | (btc) "strip (upper c) \<in> {''XBT'', ''BTC''}"
    | (other) "strip (upper c) \<notin> {''ETH'', ''EVM'', ''ARB'', ''BSC'', ''OP'', ''MATIC''}"
        "strip (upper c) \<notin> {''XBT'', ''BTC''}"
    by blast
  then show ?thesis
  proof cases
    case evm
    show ?thesis by (simp add: evm_dispatch(1) [OF evm] stable lower_lower)
  next
    case btc
    show ?thesis
      by (simp add: btc_dispatch [OF btc] stable lower_lower strip_strip)
  next
    case other
    show ?thesis by (simp add: other_dispatch(1) [OF other] strip_strip)
  qed
qed

text \<open>
  C1. When \<open>syntactic_validate\<close> accepts the address, \<open>screen_exact_match\<close> looks the
  pair of the upper-cased chain and the canonical address up in the sanctioned set: a hit
  gives match, risk score 100 and the reason of an exact match; a miss gives no match,
  risk score 0 and the reason \<open>no_exact_match\<close>. The list version is attached in both.
\<close>

theorem screen_valid_is_lookup:
  assumes "syntactic_validate c a"
  shows "screen_exact_match c a S V =
    (if (upper c, canonicalize c a) \<in> S
     then \<lparr>address = a, chain = c, match = True, risk_score = 100,
           reason = ''exact_match_authoritative_sanctions_address'', list_version = Some V\<rparr>
     else \<lparr>address = a, chain = c, match = False, risk_score = 0,
           reason = ''no_exact_match'', list_version = Some V\<rparr>)"
  using assms by (simp add: screen_exact_match_def Let_def)

theorem screen_valid_is_lookup_witness:
  "syntactic_validate ''ETH'' ''0x7F367CC41522CE07553E823BF3BE79A889DEBE1B''
   \<and> screen_exact_match ''ETH'' ''0x7F367CC41522CE07553E823BF3BE79A889DEBE1B''
        {(''ETH'', ''0x7f367cc41522ce07553e823bf3be79a889debe1b'')} demo_version =
      \<lparr>address = ''0x7F367CC41522CE07553E823BF3BE79A889DEBE1B'', chain = ''ETH'', match = True,
       risk_score = 100, reason = ''exact_match_authoritative_sanctions_address'',
       list_version = Some demo_version\<rparr>
   \<and> screen_exact_match ''ETH'' ''0x7F367CC41522CE07553E823BF3BE79A889DEBE1B''
        {(''ETH'', ''0x0000000000000000000000000000000000000000'')} demo_version =
      \<lparr>address = ''0x7F367CC41522CE07553E823BF3BE79A889DEBE1B'', chain = ''ETH'', match = False,
       risk_score = 0, reason = ''no_exact_match'', list_version = Some demo_version\<rparr>"
proof -
  have v: "syntactic_validate ''ETH'' ''0x7F367CC41522CE07553E823BF3BE79A889DEBE1B''"
    by code_simp
  have k: "upper ''ETH'' = ''ETH''"
    "canonicalize ''ETH'' ''0x7F367CC41522CE07553E823BF3BE79A889DEBE1B'' =
       ''0x7f367cc41522ce07553e823bf3be79a889debe1b''"
    by code_simp+
  show ?thesis
    using v screen_valid_is_lookup [OF v, of "{(''ETH'', ''0x7f367cc41522ce07553e823bf3be79a889debe1b'')}" demo_version]
      screen_valid_is_lookup [OF v, of "{(''ETH'', ''0x0000000000000000000000000000000000000000'')}" demo_version]
    by (simp add: k)
qed

text \<open>
  C2. When \<open>syntactic_validate\<close> rejects the address, \<open>screen_exact_match\<close> returns no
  match, risk score 0 and the reason \<open>invalid_address_syntax\<close>, with the list version
  attached, and the result is the same for every sanctioned set.
\<close>

theorem screen_invalid_ignores_set:
  assumes "\<not> syntactic_validate c a"
  shows "screen_exact_match c a S V =
           \<lparr>address = a, chain = c, match = False, risk_score = 0,
            reason = ''invalid_address_syntax'', list_version = Some V\<rparr>
         \<and> screen_exact_match c a S' V = screen_exact_match c a S V"
  using assms by (simp add: screen_exact_match_def)

theorem screen_invalid_ignores_set_witness:
  "\<not> syntactic_validate ''ETH'' ''invalid''
   \<and> screen_exact_match ''ETH'' ''invalid'' {(''ETH'', ''invalid'')} demo_version =
        \<lparr>address = ''invalid'', chain = ''ETH'', match = False, risk_score = 0,
         reason = ''invalid_address_syntax'', list_version = Some demo_version\<rparr>
   \<and> screen_exact_match ''ETH'' ''invalid'' {} demo_version =
       screen_exact_match ''ETH'' ''invalid'' {(''ETH'', ''invalid'')} demo_version"
proof -
  have v: "\<not> syntactic_validate ''ETH'' ''invalid''" by code_simp
  show ?thesis
    using v screen_invalid_ignores_set [OF v, of "{(''ETH'', ''invalid'')}" demo_version "{}"]
    by simp
qed

text \<open>
  C10. In every result of \<open>screen_exact_match\<close> the risk score is 100 when \<open>match\<close> is
  true and 0 when it is false, and the fields \<open>address\<close>, \<open>chain\<close> and \<open>list_version\<close>
  are the arguments as the caller gave them: the address is neither trimmed nor
  canonicalized.
\<close>

theorem screen_result_fields:
  "risk_score (screen_exact_match c a S V) = (if match (screen_exact_match c a S V) then 100 else 0)
   \<and> address (screen_exact_match c a S V) = a
   \<and> chain (screen_exact_match c a S V) = c
   \<and> list_version (screen_exact_match c a S V) = Some V"
  by (simp add: screen_exact_match_def Let_def)

theorem screen_result_fields_witness:
  "match (screen_exact_match ''eth'' ''  0x7F367CC41522CE07553E823BF3BE79A889DEBE1B ''
            {(''ETH'', ''0x7f367cc41522ce07553e823bf3be79a889debe1b'')} demo_version)
   \<and> risk_score (screen_exact_match ''eth'' ''  0x7F367CC41522CE07553E823BF3BE79A889DEBE1B ''
            {(''ETH'', ''0x7f367cc41522ce07553e823bf3be79a889debe1b'')} demo_version) = 100
   \<and> address (screen_exact_match ''eth'' ''  0x7F367CC41522CE07553E823BF3BE79A889DEBE1B ''
            {(''ETH'', ''0x7f367cc41522ce07553e823bf3be79a889debe1b'')} demo_version)
       = ''  0x7F367CC41522CE07553E823BF3BE79A889DEBE1B ''
   \<and> chain (screen_exact_match ''eth'' ''  0x7F367CC41522CE07553E823BF3BE79A889DEBE1B ''
            {(''ETH'', ''0x7f367cc41522ce07553e823bf3be79a889debe1b'')} demo_version) = ''eth''"
proof -
  have m: "match (screen_exact_match ''eth'' ''  0x7F367CC41522CE07553E823BF3BE79A889DEBE1B ''
            {(''ETH'', ''0x7f367cc41522ce07553e823bf3be79a889debe1b'')} demo_version)"
    by code_simp
  show ?thesis
    using m screen_result_fields [of "''eth''" "''  0x7F367CC41522CE07553E823BF3BE79A889DEBE1B ''"
        "{(''ETH'', ''0x7f367cc41522ce07553e823bf3be79a889debe1b'')}" demo_version]
    by simp
qed

text \<open>
  C5. The claim is that screening under the tag \<open>XBT\<close> gives the verdict of screening
  under \<open>BTC\<close>. \<open>canonicalize\<close> and \<open>syntactic_validate\<close> treat both tags as Bitcoin,
  but the lookup key is the upper-cased tag of the caller: against the set of the
  demonstration in \<open>main\<close>, keyed \<open>BTC\<close>, the address matches under \<open>BTC\<close> and misses
  under \<open>XBT\<close>.
\<close>

theorem xbt_lookup_keeps_ticker:
  "match (screen_exact_match ''BTC'' ''bc1qxy2kgdygjrsqtzq2n0yrf2493p83kkfjhx0wlh''
            {(''BTC'', ''bc1qxy2kgdygjrsqtzq2n0yrf2493p83kkfjhx0wlh'')} demo_version)
   \<and> screen_exact_match ''XBT'' ''bc1qxy2kgdygjrsqtzq2n0yrf2493p83kkfjhx0wlh''
            {(''BTC'', ''bc1qxy2kgdygjrsqtzq2n0yrf2493p83kkfjhx0wlh'')} demo_version =
        \<lparr>address = ''bc1qxy2kgdygjrsqtzq2n0yrf2493p83kkfjhx0wlh'', chain = ''XBT'',
         match = False, risk_score = 0, reason = ''no_exact_match'',
         list_version = Some demo_version\<rparr>"
  by code_simp

text \<open>
  C9. For a chain tag that, upper-cased and trimmed, is neither of the EVM family nor a
  Bitcoin ticker, \<open>syntactic_validate\<close> accepts every address and \<open>canonicalize\<close>
  returns the trimmed address. The claim upper-cases the tag only; the code also trims
  it, so a padded tag of a known chain is not an unknown chain.
\<close>

theorem unknown_chain_passes_through:
  assumes "strip (upper c) \<notin> {''ETH'', ''EVM'', ''ARB'', ''BSC'', ''OP'', ''MATIC''}"
      and "strip (upper c) \<notin> {''XBT'', ''BTC''}"
  shows "syntactic_validate c a \<and> canonicalize c a = strip a"
  using assms by (simp add: other_dispatch)

theorem unknown_chain_passes_through_witness:
  "strip (upper ''trx'') \<notin> {''ETH'', ''EVM'', ''ARB'', ''BSC'', ''OP'', ''MATIC''}
   \<and> strip (upper ''trx'') \<notin> {''XBT'', ''BTC''}
   \<and> syntactic_validate ''trx'' '' TJRabPrwbZy45sbavfcjinPJC18kjpRTv8 ''
   \<and> canonicalize ''trx'' '' TJRabPrwbZy45sbavfcjinPJC18kjpRTv8 '' = ''TJRabPrwbZy45sbavfcjinPJC18kjpRTv8''"
proof -
  have t: "strip (upper ''trx'') = ''TRX''"
    and s: "strip '' TJRabPrwbZy45sbavfcjinPJC18kjpRTv8 '' = ''TJRabPrwbZy45sbavfcjinPJC18kjpRTv8''"
    by code_simp+
  have h1: "strip (upper ''trx'') \<notin> {''ETH'', ''EVM'', ''ARB'', ''BSC'', ''OP'', ''MATIC''}"
    and h2: "strip (upper ''trx'') \<notin> {''XBT'', ''BTC''}"
    by (simp_all add: t)
  show ?thesis
    using h1 h2 unknown_chain_passes_through [OF h1 h2, of "'' TJRabPrwbZy45sbavfcjinPJC18kjpRTv8 ''"]
    by (simp add: s)
qed

theorem padded_chain_tag_counterexample:
  "upper '' eth '' \<notin> {''ETH'', ''EVM'', ''ARB'', ''BSC'', ''OP'', ''MATIC''}
   \<and> upper '' eth '' \<notin> {''XBT'', ''BTC''}
   \<and> \<not> syntactic_validate '' eth '' ''not-an-address''
   \<and> canonicalize '' eth '' ''0xAB'' \<noteq> strip ''0xAB''"
  by code_simp

text \<open>
  C3. For a chain of the EVM family \<open>syntactic_validate\<close> accepts an address exactly
  when its trimmed form is the prefix \<open>0x\<close>, in lower case, followed by exactly 40
  hexadecimal digits of either case. The prefix is required: the claim has it optional,
  and a bare string of 40 hexadecimal digits is rejected.
\<close>

theorem evm_syntax_needs_0x:
  assumes "strip (upper c) \<in> {''ETH'', ''EVM'', ''ARB'', ''BSC'', ''OP'', ''MATIC''}"
  shows "syntactic_validate c a \<longleftrightarrow>
           (\<exists>h. strip a = ''0x'' @ h \<and> length h = 40 \<and> set h \<subseteq> set ''0123456789abcdefABCDEF'')"
  by (simp only: evm_dispatch(2) [OF assms] EVM_RE_strip list_all_hex_iff)

theorem evm_syntax_needs_0x_witness:
  "strip (upper ''matic'') \<in> {''ETH'', ''EVM'', ''ARB'', ''BSC'', ''OP'', ''MATIC''}
   \<and> syntactic_validate ''matic'' '' 0x7F367CC41522CE07553E823BF3be79a889debe1b ''
   \<and> \<not> syntactic_validate ''matic'' ''0X7f367cc41522ce07553e823bf3be79a889debe1b''
   \<and> \<not> syntactic_validate ''matic'' ''0x7f367cc41522ce07553e823bf3be79a889debe1''
   \<and> \<not> syntactic_validate ''matic'' ''0x7f367cc41522ce07553e823bf3be79a889debe1g''"
proof -
  have t: "strip (upper ''matic'') \<in> {''ETH'', ''EVM'', ''ARB'', ''BSC'', ''OP'', ''MATIC''}"
    by code_simp
  have s: "strip '' 0x7F367CC41522CE07553E823BF3be79a889debe1b '' =
             ''0x'' @ ''7F367CC41522CE07553E823BF3be79a889debe1b''"
    by code_simp
  have "length ''7F367CC41522CE07553E823BF3be79a889debe1b'' = 40
        \<and> set ''7F367CC41522CE07553E823BF3be79a889debe1b'' \<subseteq> set ''0123456789abcdefABCDEF''"
    by code_simp
  with s have "\<exists>h. strip '' 0x7F367CC41522CE07553E823BF3be79a889debe1b '' = ''0x'' @ h
                 \<and> length h = 40 \<and> set h \<subseteq> set ''0123456789abcdefABCDEF''"
    by blast
  then have "syntactic_validate ''matic'' '' 0x7F367CC41522CE07553E823BF3be79a889debe1b ''"
    by (simp only: evm_syntax_needs_0x [OF t])
  moreover have "\<not> syntactic_validate ''matic'' ''0X7f367cc41522ce07553e823bf3be79a889debe1b''"
    "\<not> syntactic_validate ''matic'' ''0x7f367cc41522ce07553e823bf3be79a889debe1''"
    "\<not> syntactic_validate ''matic'' ''0x7f367cc41522ce07553e823bf3be79a889debe1g''"
    by code_simp+
  ultimately show ?thesis using t by blast
qed

theorem evm_bare_hex_counterexample:
  "length ''7f367cc41522ce07553e823bf3be79a889debe1b'' = 40
   \<and> list_all hex_class ''7f367cc41522ce07553e823bf3be79a889debe1b''
   \<and> strip ''7f367cc41522ce07553e823bf3be79a889debe1b'' = ''7f367cc41522ce07553e823bf3be79a889debe1b''
   \<and> \<not> syntactic_validate ''ETH'' ''7f367cc41522ce07553e823bf3be79a889debe1b''"
  by code_simp

text \<open>
  C4. The claim is that a document without the key \<open>addresses\<close> fails to load. The
  loader reads the key with the default of an empty list: for a document that is a
  \<open>dict\<close> without that key it returns the empty sanctioned set whenever the metadata
  block loads, and otherwise the error of the metadata block.
\<close>

theorem load_without_addresses:
  assumes "map_of items ''addresses'' = None"
  shows "load_sanctioned_addresses fromisoformat (JObj items) =
           (case load_version fromisoformat (JObj items) of
              Inl e \<Rightarrow> Inl e
            | Inr version \<Rightarrow> Inr ({}, version))"
  using assms by (simp add: load_sanctioned_addresses_def split: sum.split)

theorem load_without_addresses_witness:
  "map_of [] ''addresses'' = (None :: json option)
   \<and> load_sanctioned_addresses fromisoformat_seconds (JObj []) =
       Inr ({}, \<lparr>source = JStr ''UNKNOWN'',
                 retrieved_at_utc = \<lparr>year = 2000, month = 1, day = 1, hour = 0, minute = 0, second = 0\<rparr>,
                 sha256 = JStr [], uri = JStr []\<rparr>)"
proof -
  have v: "load_version fromisoformat_seconds (JObj []) =
       Inr \<lparr>source = JStr ''UNKNOWN'',
                 retrieved_at_utc = \<lparr>year = 2000, month = 1, day = 1, hour = 0, minute = 0, second = 0\<rparr>,
                 sha256 = JStr [], uri = JStr []\<rparr>"
    by code_simp
  have h: "map_of [] ''addresses'' = (None :: json option)" by simp
  show ?thesis
    using h load_without_addresses [OF h, of fromisoformat_seconds] by (simp add: v)
qed

theorem load_missing_addresses_counterexample:
  "load_sanctioned_addresses fromisoformat_seconds
     (JObj [(''metadata'', JObj [(''source'', JStr ''OFAC_SDN''),
                                 (''retrieved_at_utc'', JStr ''2026-02-15T00:00:00''),
                                 (''sha256'', JStr ''abc123''),
                                 (''uri'', JStr ''https://example.org/sdn.xml'')])]) =
   Inr ({}, \<lparr>source = JStr ''OFAC_SDN'',
             retrieved_at_utc = \<lparr>year = 2026, month = 2, day = 15, hour = 0, minute = 0, second = 0\<rparr>,
             sha256 = JStr ''abc123'', uri = JStr ''https://example.org/sdn.xml''\<rparr>)"
  by code_simp

text \<open>
  C6. For a Bitcoin tag, \<open>canonicalize\<close> returns the trimmed form of an address that does
  not begin, case-insensitively, with \<open>bc1\<close>, \<open>tb1\<close> or \<open>bcrt1\<close>. For every sanctioned
  set, such an address matches exactly when it is syntactically valid and its trimmed
  form itself is in the set under the upper-cased tag. So in every sanctioned set that
  holds the form \<open>t\<close> and no other entry spelling the same address, an address that
  differs from \<open>t\<close> in letter case only does not match, while \<open>t\<close>, trimmed and valid,
  does; against the set of \<open>t\<close> alone only a trimmed form equal to \<open>t\<close> matches.
\<close>

theorem btc_legacy_exact_case:
  assumes btc: "strip (upper c) \<in> {''XBT'', ''BTC''}"
      and legacy: "\<not> startswith_any (lower (strip t)) [''bc1'', ''tb1'', ''bcrt1'']"
  shows "canonicalize c t = strip t
         \<and> (\<forall>S a. \<not> startswith_any (lower (strip a)) [''bc1'', ''tb1'', ''bcrt1''] \<longrightarrow>
               match (screen_exact_match c a S V) =
                 (syntactic_validate c a \<and> (upper c, strip a) \<in> S))
         \<and> (\<forall>S a. (\<forall>t'. (upper c, t') \<in> S \<and> lower (strip t') = lower (strip t) \<longrightarrow> t' = t)
                  \<and> lower a = lower t \<and> a \<noteq> t \<longrightarrow>
               \<not> match (screen_exact_match c a S V))
         \<and> (\<forall>S. (upper c, t) \<in> S \<and> syntactic_validate c t \<and> strip t = t \<longrightarrow>
               match (screen_exact_match c t S V))
         \<and> (\<forall>a. match (screen_exact_match c a {(upper c, t)} V) \<longrightarrow> strip a = t)"
proof -
  note canon = btc_dispatch(1) [OF btc]
  from legacy have own: "canonicalize c t = strip t" by (simp add: canon)
  have exact: "match (screen_exact_match c a S V) =
                 (syntactic_validate c a \<and> (upper c, strip a) \<in> S)"
    if "\<not> startswith_any (lower (strip a)) [''bc1'', ''tb1'', ''bcrt1'']" for S a
    using that by (simp add: match_iff canon)
  have variant: "\<not> match (screen_exact_match c a S V)"
    if one: "\<forall>t'. (upper c, t') \<in> S \<and> lower (strip t') = lower (strip t) \<longrightarrow> t' = t"
      and eq: "lower a = lower t" and ne: "a \<noteq> t" for S a
  proof
    assume m: "match (screen_exact_match c a S V)"
    from eq have spelled: "lower (strip a) = lower (strip t)"
      by (simp only: strip_lower [symmetric])
    with legacy have "\<not> startswith_any (lower (strip a)) [''bc1'', ''tb1'', ''bcrt1'']"
      by simp
    with m have "(upper c, strip a) \<in> S" by (simp add: exact)
    moreover from spelled have "lower (strip (strip a)) = lower (strip t)"
      by (simp only: strip_strip)
    ultimately have s: "strip a = t" using one by blast
    from eq have "length (lower a) = length (lower t)" by simp
    then have "length a = length t" by (simp only: length_lower)
    with s have "length (strip a) = length a" by simp
    then have "strip a = a" by (rule length_strip_eq)
    with s ne show False by simp
  qed
  have stored: "match (screen_exact_match c t S V)"
    if "(upper c, t) \<in> S" and "syntactic_validate c t" and "strip t = t" for S
    using that own by (simp add: match_iff)
  have only: "strip a = t" if m: "match (screen_exact_match c a {(upper c, t)} V)" for a
  proof -
    from m have k: "canonicalize c a = t" by (simp add: match_iff)
    show ?thesis
    proof (cases "startswith_any (lower (strip a)) [''bc1'', ''tb1'', ''bcrt1'']")
      case True
      with k have t: "t = lower (strip a)" by (simp add: canon)
      then have "lower (strip t) = lower (strip a)"
        by (simp add: strip_lower strip_strip lower_lower)
      with True legacy show ?thesis by simp
    next
      case False
      with k show ?thesis by (simp add: canon)
    qed
  qed
  from exact have c2: "\<forall>S a. \<not> startswith_any (lower (strip a)) [''bc1'', ''tb1'', ''bcrt1''] \<longrightarrow>
               match (screen_exact_match c a S V) =
                 (syntactic_validate c a \<and> (upper c, strip a) \<in> S)"
    by blast
  from variant have c3: "\<forall>S a. (\<forall>t'. (upper c, t') \<in> S \<and> lower (strip t') = lower (strip t) \<longrightarrow> t' = t)
                  \<and> lower a = lower t \<and> a \<noteq> t \<longrightarrow>
               \<not> match (screen_exact_match c a S V)"
    by blast
  from stored have c4: "\<forall>S. (upper c, t) \<in> S \<and> syntactic_validate c t \<and> strip t = t \<longrightarrow>
               match (screen_exact_match c t S V)"
    by blast
  from only have c5: "\<forall>a. match (screen_exact_match c a {(upper c, t)} V) \<longrightarrow> strip a = t"
    by blast
  from own c2 c3 c4 c5 show ?thesis by (intro conjI)
qed

theorem btc_legacy_exact_case_witness:
  "strip (upper ''BTC'') \<in> {''XBT'', ''BTC''}
   \<and> \<not> startswith_any (lower (strip ''1A1zP1eP5QGefi2DMPTfTL5SLmv7DivfNa'')) [''bc1'', ''tb1'', ''bcrt1'']
   \<and> canonicalize ''BTC'' ''1A1zP1eP5QGefi2DMPTfTL5SLmv7DivfNa'' = ''1A1zP1eP5QGefi2DMPTfTL5SLmv7DivfNa''
   \<and> match (screen_exact_match ''BTC'' ''1A1zP1eP5QGefi2DMPTfTL5SLmv7DivfNa''
              {(''BTC'', ''1A1zP1eP5QGefi2DMPTfTL5SLmv7DivfNa''),
               (''BTC'', ''bc1qxy2kgdygjrsqtzq2n0yrf2493p83kkfjhx0wlh''),
               (''ETH'', ''0x7f367cc41522ce07553e823bf3be79a889debe1b'')} demo_version)
   \<and> syntactic_validate ''BTC'' ''1a1zP1eP5QGefi2DMPTfTL5SLmv7DivfNa''
   \<and> \<not> match (screen_exact_match ''BTC'' ''1a1zP1eP5QGefi2DMPTfTL5SLmv7DivfNa''
              {(''BTC'', ''1A1zP1eP5QGefi2DMPTfTL5SLmv7DivfNa''),
               (''BTC'', ''bc1qxy2kgdygjrsqtzq2n0yrf2493p83kkfjhx0wlh''),
               (''ETH'', ''0x7f367cc41522ce07553e823bf3be79a889debe1b'')} demo_version)"
proof -
  let ?t = "''1A1zP1eP5QGefi2DMPTfTL5SLmv7DivfNa''"
  let ?a = "''1a1zP1eP5QGefi2DMPTfTL5SLmv7DivfNa''"
  let ?S = "{(''BTC'', ?t), (''BTC'', ''bc1qxy2kgdygjrsqtzq2n0yrf2493p83kkfjhx0wlh''),
             (''ETH'', ''0x7f367cc41522ce07553e823bf3be79a889debe1b'')}"
  have b: "strip (upper ''BTC'') \<in> {''XBT'', ''BTC''}" by (simp add: tag_BTC(1))
  have l: "\<not> startswith_any (lower (strip ?t)) [''bc1'', ''tb1'', ''bcrt1'']"
    by code_simp
  have s: "strip ?t = ?t"
    and v: "syntactic_validate ''BTC'' ?t"
    and v': "syntactic_validate ''BTC'' ?a"
    and e: "lower ?a = lower ?t"
    and u: "upper ''BTC'' = ''BTC''"
    and other: "lower (strip ''bc1qxy2kgdygjrsqtzq2n0yrf2493p83kkfjhx0wlh'') \<noteq> lower (strip ?t)"
    by code_simp+
  have n: "?a \<noteq> ?t" by simp
  have tags: "''BTC'' \<noteq> ''ETH''" by simp
  have one: "\<forall>t'. (upper ''BTC'', t') \<in> ?S \<and> lower (strip t') = lower (strip ?t) \<longrightarrow> t' = ?t"
  proof (intro allI impI)
    fix t'
    assume h: "(upper ''BTC'', t') \<in> ?S \<and> lower (strip t') = lower (strip ?t)"
    from h have sp: "lower (strip t') = lower (strip ?t)" by (rule conjunct2)
    from h have "(upper ''BTC'', t') \<in> ?S" by (rule conjunct1)
    then have "(''BTC'', t') \<in> ?S" by (simp only: u)
    with tags have d: "t' = ?t \<or> t' = ''bc1qxy2kgdygjrsqtzq2n0yrf2493p83kkfjhx0wlh''"
      by (simp only: insert_iff empty_iff prod.inject simp_thms)
    from d show "t' = ?t"
    proof (rule disjE)
      assume "t' = ?t"
      then show ?thesis .
    next
      assume x: "t' = ''bc1qxy2kgdygjrsqtzq2n0yrf2493p83kkfjhx0wlh''"
      from sp have "lower (strip ''bc1qxy2kgdygjrsqtzq2n0yrf2493p83kkfjhx0wlh'') = lower (strip ?t)"
        unfolding x .
      with other show ?thesis by (rule notE)
    qed
  qed
  have mem: "(upper ''BTC'', ?t) \<in> ?S" by (simp only: u insert_iff simp_thms)
  note inst = btc_legacy_exact_case [OF b l, of demo_version]
  from inst [THEN conjunct1] have 1: "canonicalize ''BTC'' ?t = ?t" by (simp only: s)
  note c3 = inst [THEN conjunct2, THEN conjunct2, THEN conjunct1, rule_format]
  note c4 = inst [THEN conjunct2, THEN conjunct2, THEN conjunct2, THEN conjunct1, rule_format]
  have 2: "match (screen_exact_match ''BTC'' ?t ?S demo_version)"
    by (rule c4) (intro conjI mem v s)
  have 3: "\<not> match (screen_exact_match ''BTC'' ?a ?S demo_version)"
    by (rule c3) (intro conjI one e n)
  show ?thesis by (intro conjI b l 1 2 v' 3)
qed

text \<open>
  C7. For every string \<open>h\<close> of 40 hexadecimal digits, every sanctioned set and every list
  version, screening \<open>0x\<close> followed by the upper-case form of \<open>h\<close> on chain \<open>ETH\<close> gives
  the verdict of screening \<open>0x\<close> followed by its lower-case form; every spelling of the
  digits in mixed case gives that verdict too, which is whether the set holds the
  lower-case form under \<open>ETH\<close>.
\<close>

theorem evm_case_invariance:
  assumes "length h = 40" and "list_all hex_class h"
  shows "match (screen_exact_match ''ETH'' (''0x'' @ upper h) S V) =
           match (screen_exact_match ''ETH'' (''0x'' @ lower h) S V)
         \<and> (\<forall>h'. lower h' = lower h \<longrightarrow>
               match (screen_exact_match ''ETH'' (''0x'' @ h') S V) = ((''ETH'', ''0x'' @ lower h) \<in> S))"
proof -
  have variant: "match (screen_exact_match ''ETH'' (''0x'' @ h') S V) = ((''ETH'', ''0x'' @ lower h) \<in> S)"
    if eq: "lower h' = lower h" for h'
  proof -
    from eq have "length (lower h') = length (lower h)" by simp
    with assms(1) have len: "length h' = 40" by (simp only: length_lower)
    from assms(2) have "list_all hex_class (lower h)" by (simp only: hex_lower)
    with eq have "list_all hex_class (lower h')" by simp
    then have "list_all hex_class h'" by (simp only: hex_lower)
    with len have "match (screen_exact_match ''ETH'' (''0x'' @ h') S V) = ((''ETH'', ''0x'' @ lower h') \<in> S)"
      by (rule screen_eth_0x_hex)
    with eq show ?thesis by simp
  qed
  have "lower (upper h) = lower h" using assms(2) by (rule lower_upper_hex)
  then have up: "match (screen_exact_match ''ETH'' (''0x'' @ upper h) S V) = ((''ETH'', ''0x'' @ lower h) \<in> S)"
    by (rule variant)
  have lo: "match (screen_exact_match ''ETH'' (''0x'' @ lower h) S V) = ((''ETH'', ''0x'' @ lower h) \<in> S)"
    by (rule variant) (rule lower_lower)
  from up lo have "match (screen_exact_match ''ETH'' (''0x'' @ upper h) S V) =
           match (screen_exact_match ''ETH'' (''0x'' @ lower h) S V)" by simp
  with variant show ?thesis by blast
qed

theorem evm_case_invariance_witness:
  "length ''7f367cc41522ce07553e823bf3be79a889debe1b'' = 40
   \<and> list_all hex_class ''7f367cc41522ce07553e823bf3be79a889debe1b''
   \<and> upper ''7f367cc41522ce07553e823bf3be79a889debe1b'' = ''7F367CC41522CE07553E823BF3BE79A889DEBE1B''
   \<and> match (screen_exact_match ''ETH'' (''0x'' @ upper ''7f367cc41522ce07553e823bf3be79a889debe1b'')
              {(''ETH'', ''0x7f367cc41522ce07553e823bf3be79a889debe1b'')} demo_version)
   \<and> match (screen_exact_match ''ETH'' (''0x'' @ lower ''7f367cc41522ce07553e823bf3be79a889debe1b'')
              {(''ETH'', ''0x7f367cc41522ce07553e823bf3be79a889debe1b'')} demo_version)
   \<and> match (screen_exact_match ''ETH'' (''0x'' @ ''7f367CC41522ce07553e823bf3be79a889DEBE1b'')
              {(''ETH'', ''0x7f367cc41522ce07553e823bf3be79a889debe1b'')} demo_version)"
proof -
  have l: "length ''7f367cc41522ce07553e823bf3be79a889debe1b'' = 40"
    and x: "list_all hex_class ''7f367cc41522ce07553e823bf3be79a889debe1b''"
    and u: "upper ''7f367cc41522ce07553e823bf3be79a889debe1b'' = ''7F367CC41522CE07553E823BF3BE79A889DEBE1B''"
    and mixed: "lower ''7f367CC41522ce07553e823bf3be79a889DEBE1b'' =
                  lower ''7f367cc41522ce07553e823bf3be79a889debe1b''"
    and mem: "(''ETH'', ''0x'' @ lower ''7f367cc41522ce07553e823bf3be79a889debe1b'') \<in>
                {(''ETH'', ''0x7f367cc41522ce07553e823bf3be79a889debe1b'')}"
    by code_simp+
  note inv = evm_case_invariance [OF l x,
      of "{(''ETH'', ''0x7f367cc41522ce07553e823bf3be79a889debe1b'')}" demo_version]
  note same = inv [THEN conjunct1]
  note verdict = inv [THEN conjunct2, rule_format]
  have m1: "match (screen_exact_match ''ETH'' (''0x'' @ lower ''7f367cc41522ce07553e823bf3be79a889debe1b'')
              {(''ETH'', ''0x7f367cc41522ce07553e823bf3be79a889debe1b'')} demo_version)"
    by (rule iffD2 [OF verdict [OF lower_lower] mem])
  have m2: "match (screen_exact_match ''ETH'' (''0x'' @ ''7f367CC41522ce07553e823bf3be79a889DEBE1b'')
              {(''ETH'', ''0x7f367cc41522ce07553e823bf3be79a889debe1b'')} demo_version)"
    by (rule iffD2 [OF verdict [OF mixed] mem])
  have m0: "match (screen_exact_match ''ETH'' (''0x'' @ upper ''7f367cc41522ce07553e823bf3be79a889debe1b'')
              {(''ETH'', ''0x7f367cc41522ce07553e823bf3be79a889debe1b'')} demo_version)"
    by (rule iffD2 [OF same m1])
  show ?thesis by (intro conjI l x u m0 m1 m2)
qed

end
